theory Spec2Isabelle
  imports Complex_Main
begin

section \<open>Portable spreadsheet generator: cells and the grid\<close>

text \<open>
  The development embeds \<^verbatim>\<open>portable_spreadsheet/cell.py\<close> and
  \<^verbatim>\<open>portable_spreadsheet/spreadsheet.py\<close>.

  Python objects live in an explicit store: a \<open>Cell\<close> object and a \<open>CellIndices\<close>
  object are addressed by their position in a list, allocation appends to the list, and
  an attribute assignment updates the list at the address. A variable holding an object
  holds its address, so two names of one object are two copies of one address.

  Numbers are idealised as reals: no rounding, no overflow, no infinities and no
  not-a-number. Exceptions are the left summand of a sum type and carry the name of the
  Python exception class.
\<close>

subsection \<open>Errors\<close>

text \<open>
  \<open>ValueError\<close>, \<open>IndexError\<close>, \<open>TypeError\<close> and \<open>ZeroDivisionError\<close> are the Python
  exceptions the two files raise or let through. In the vocabulary of the specification,
  the \<open>ValueError\<close> of the constructor is \<open>InvalidAnchoring\<close>, the \<open>ValueError\<close> of
  \<open>Cell.reference\<close> is \<open>InvalidOperand\<close>, the \<open>IndexError\<close> of the item access is
  \<open>IndexOutOfBounds\<close>, and the exception of a reduction over an empty subset is
  \<open>EmptyAggregation\<close>. \<open>IncompatibleIndices\<close> is raised by the word constructor only.
\<close>

datatype error = ValueError | IndexError | TypeError | ZeroDivisionError | IncompatibleIndices

subsection \<open>Fragments and cell indices\<close>

type_synonym ref = nat

datatype CellType = value_only | computational

datatype operation = Add | Subtract | Multiply | Divide | Power

text \<open>
  Modelled from the spec: the class \<open>WordConstructor\<close> (file
  \<^verbatim>\<open>word_constructor.py\<close>) is missing. The specification describes a fragment as
  immutable data with a structural tag (operator kind and operand fragments); the text
  rendered for each grammar is a function of this structure and is not modelled.
\<close>

datatype fragment =
    Empty
  | Constant "real option"
  | Reference int int
  | Binary operation fragment fragment
  | Brackets fragment
  | Logarithm fragment
  | Exponential fragment
  | Aggregation string "int \<times> int" "int \<times> int"

text \<open>
  Modelled from the spec: the class \<open>CellIndices\<close> (file \<^verbatim>\<open>cell_indices.py\<close>)
  is missing. The specification gives it a shape and, for each axis, a sequence of
  labels and a sequence of help texts.
\<close>

record CellIndices =
  number_of_rows :: nat
  number_of_columns :: nat
  rows_labels :: "string list"
  columns_labels :: "string list"
  rows_help_text :: "string list"
  columns_help_text :: "string list"

definition shape_of :: "CellIndices \<Rightarrow> nat \<times> nat" where
  "shape_of ci = (number_of_rows ci, number_of_columns ci)"

subsection \<open>The class \<open>Cell\<close>\<close>

record cell =
  row :: "int option"
  column :: "int option"
  cell_value :: "real option"
  cell_type :: CellType
  cell_indices :: ref
  constructing_words :: fragment

record heap =
  cells :: "cell list"
  indices :: "CellIndices list"

definition alloc_cell :: "heap \<Rightarrow> cell \<Rightarrow> ref \<times> heap" where
  "alloc_cell h c = (length (cells h), h\<lparr>cells := cells h @ [c]\<rparr>)"

definition alloc_indices :: "heap \<Rightarrow> CellIndices \<Rightarrow> ref \<times> heap" where
  "alloc_indices h ci = (length (indices h), h\<lparr>indices := indices h @ [ci]\<rparr>)"

definition anchored :: "cell \<Rightarrow> bool" where
  "anchored c = (row c \<noteq> None)"

text \<open>
  Modelled from the spec: \<open>WordConstructor.constant\<close>, \<open>WordConstructor.reference\<close> and
  \<open>WordConstructor.init_from_new_cell\<close> are missing. A constant renders the literal
  number; a reference is the coordinate label of an anchored cell and fails on a cell
  that is not anchored; a cell built with no fragment gets a constant fragment when it is
  a Value cell and a coordinate fragment when it is anchored and has no number.
\<close>

definition WordConstructor_constant :: "cell \<Rightarrow> fragment" where
  "WordConstructor_constant c = Constant (cell_value c)"

definition WordConstructor_reference :: "cell \<Rightarrow> error + fragment" where
  "WordConstructor_reference c =
     (case (row c, column c) of
        (Some r, Some k) \<Rightarrow> Inr (Reference r k)
      | _ \<Rightarrow> Inl ValueError)"

definition init_from_new_cell :: "cell \<Rightarrow> fragment" where
  "init_from_new_cell c =
     (case (row c, column c, cell_value c) of
        (Some r, Some k, None) \<Rightarrow> Reference r k
      | _ \<Rightarrow> (case cell_type c of
                value_only \<Rightarrow> WordConstructor_constant c
              | computational \<Rightarrow> Empty))"

text \<open>The constructor \<open>Cell.__init__\<close>; \<open>words = None\<close> asks for a synthesised fragment.\<close>

definition Cell_init ::
  "int option \<Rightarrow> int option \<Rightarrow> real option \<Rightarrow> ref \<Rightarrow> CellType \<Rightarrow> fragment option
     \<Rightarrow> error + cell" where
  "Cell_init r k v ci ct words =
     (if (r \<noteq> None \<and> k = None) \<or> (r = None \<and> k \<noteq> None) then Inl ValueError
      else
        (let self = \<lparr>row = r, column = k, cell_value = v, cell_type = ct,
                     cell_indices = ci, constructing_words = Empty\<rparr>
         in Inr (self\<lparr>constructing_words :=
                   (case words of Some w \<Rightarrow> w | None \<Rightarrow> init_from_new_cell self)\<rparr>)))"

text \<open>The property \<open>Cell.word\<close>.\<close>

definition word :: "cell \<Rightarrow> error + fragment" where
  "word c =
     (if anchored c then WordConstructor_reference c
      else (case cell_type c of
              computational \<Rightarrow> Inr (constructing_words c)
            | value_only \<Rightarrow> Inr (WordConstructor_constant c)))"

text \<open>
  Modelled from the spec: the operators of \<open>WordConstructor\<close> are missing. A binary
  operator joins the exposed fragments of its two operands and fails with
  \<open>IncompatibleIndices\<close> when the operands point at different \<open>CellIndices\<close> objects;
  \<open>logarithm\<close> and \<open>exponential\<close> wrap the exposed fragment of one operand;
  \<open>aggregation\<close> is parameterised by the method name and the start and end indices.
\<close>

definition WordConstructor_binary :: "operation \<Rightarrow> cell \<Rightarrow> cell \<Rightarrow> error + fragment" where
  "WordConstructor_binary opr a b =
     (if cell_indices a \<noteq> cell_indices b then Inl IncompatibleIndices
      else (case word a of
              Inl e \<Rightarrow> Inl e
            | Inr wa \<Rightarrow> (case word b of
                          Inl e \<Rightarrow> Inl e
                        | Inr wb \<Rightarrow> Inr (Binary opr wa wb))))"

definition WordConstructor_logarithm :: "cell \<Rightarrow> error + fragment" where
  "WordConstructor_logarithm c = (case word c of Inl e \<Rightarrow> Inl e | Inr w \<Rightarrow> Inr (Logarithm w))"

definition WordConstructor_exponential :: "cell \<Rightarrow> error + fragment" where
  "WordConstructor_exponential c =
     (case word c of Inl e \<Rightarrow> Inl e | Inr w \<Rightarrow> Inr (Exponential w))"


subsubsection \<open>Native arithmetic\<close>

text \<open>
  Python's \<open>+\<close>, \<open>-\<close>, \<open>*\<close>, \<open>/\<close> and \<open>**\<close> on two optional numbers. An operand \<open>None\<close>
  raises \<open>TypeError\<close>; \<open>/\<close> raises \<open>ZeroDivisionError\<close> on a zero divisor; \<open>**\<close> raises
  \<open>ZeroDivisionError\<close> on zero to a negative power. A negative base to a fractional
  power is a complex number in Python: the reals have no such number, and \<open>py_pow\<close>
  leaves the result unspecified there (\<open>powr\<close> of a negative base).
\<close>

definition py_pow :: "real \<Rightarrow> real \<Rightarrow> real" where
  "py_pow x y = (if of_int \<lfloor>y\<rfloor> = y then x powi \<lfloor>y\<rfloor> else x powr y)"

fun native :: "operation \<Rightarrow> real option \<Rightarrow> real option \<Rightarrow> error + real" where
  "native Add (Some x) (Some y) = Inr (x + y)"
| "native Subtract (Some x) (Some y) = Inr (x - y)"
| "native Multiply (Some x) (Some y) = Inr (x * y)"
| "native Divide (Some x) (Some y) = (if y = 0 then Inl ZeroDivisionError else Inr (x / y))"
| "native Power (Some x) (Some y) =
     (if x = 0 \<and> y < 0 then Inl ZeroDivisionError else Inr (py_pow x y))"
| "native opr _ _ = Inl TypeError"

subsubsection \<open>Arithmetic on cells\<close>

text \<open>
  The five methods \<open>add\<close>, \<open>subtract\<close>, \<open>multiply\<close>, \<open>divide\<close> and \<open>power\<close> have one
  body up to the operator: the number is computed first, then the fragment, then the
  constructor runs with no position, the indices of \<open>other\<close> and the computational type.
\<close>

definition binary_cell :: "operation \<Rightarrow> heap \<Rightarrow> ref \<Rightarrow> ref \<Rightarrow> error + (ref \<times> heap)" where
  "binary_cell opr h self other =
     (case native opr (cell_value (cells h ! self)) (cell_value (cells h ! other)) of
        Inl e \<Rightarrow> Inl e
      | Inr v \<Rightarrow>
          (case WordConstructor_binary opr (cells h ! self) (cells h ! other) of
             Inl e \<Rightarrow> Inl e
           | Inr w \<Rightarrow>
               (case Cell_init None None (Some v) (cell_indices (cells h ! other))
                       computational (Some w) of
                  Inl e \<Rightarrow> Inl e
                | Inr c \<Rightarrow> Inr (alloc_cell h c))))"

definition add :: "heap \<Rightarrow> ref \<Rightarrow> ref \<Rightarrow> error + (ref \<times> heap)" where
  "add = binary_cell Add"





subsubsection \<open>References, logarithm and exponential\<close>

definition reference :: "heap \<Rightarrow> ref \<Rightarrow> error + (ref \<times> heap)" where
  "reference h other =
     (if \<not> anchored (cells h ! other) then Inl ValueError
      else
        (case WordConstructor_reference (cells h ! other) of
           Inl e \<Rightarrow> Inl e
         | Inr w \<Rightarrow>
             (case Cell_init None None (cell_value (cells h ! other))
                     (cell_indices (cells h ! other)) computational (Some w) of
                Inl e \<Rightarrow> Inl e
              | Inr c \<Rightarrow> Inr (alloc_cell h c))))"

text \<open>
  \<open>np.log\<close> and \<open>np.exp\<close> on an optional number. \<open>None\<close> raises \<open>TypeError\<close>. On a
  number that is not positive \<open>np.log\<close> returns an infinity or not-a-number, which the
  reals do not have: \<open>ln\<close> is unspecified there.
\<close>

definition np_log :: "real option \<Rightarrow> error + real" where
  "np_log v = (case v of None \<Rightarrow> Inl TypeError | Some x \<Rightarrow> Inr (ln x))"

definition np_exp :: "real option \<Rightarrow> error + real" where
  "np_exp v = (case v of None \<Rightarrow> Inl TypeError | Some x \<Rightarrow> Inr (exp x))"

definition logarithm :: "heap \<Rightarrow> ref \<Rightarrow> error + (ref \<times> heap)" where
  "logarithm h other =
     (case np_log (cell_value (cells h ! other)) of
        Inl e \<Rightarrow> Inl e
      | Inr v \<Rightarrow>
          (case WordConstructor_logarithm (cells h ! other) of
             Inl e \<Rightarrow> Inl e
           | Inr w \<Rightarrow>
               (case Cell_init None None (Some v) (cell_indices (cells h ! other))
                       computational (Some w) of
                  Inl e \<Rightarrow> Inl e
                | Inr c \<Rightarrow> Inr (alloc_cell h c))))"

text \<open>The source passes \<open>WordConstructor.logarithm(other)\<close> here as well.\<close>

definition exponential :: "heap \<Rightarrow> ref \<Rightarrow> error + (ref \<times> heap)" where
  "exponential h other =
     (case np_exp (cell_value (cells h ! other)) of
        Inl e \<Rightarrow> Inl e
      | Inr v \<Rightarrow>
          (case WordConstructor_logarithm (cells h ! other) of
             Inl e \<Rightarrow> Inl e
           | Inr w \<Rightarrow>
               (case Cell_init None None (Some v) (cell_indices (cells h ! other))
                       computational (Some w) of
                  Inl e \<Rightarrow> Inl e
                | Inr c \<Rightarrow> Inr (alloc_cell h c))))"

subsubsection \<open>Aggregations\<close>













subsection \<open>The class \<open>Spreadsheet\<close>\<close>

record spreadsheet =
  sp_cell_indices :: ref
  sheet :: "ref list list"

text \<open>A coordinate handed to the item access is a Python \<open>int\<close> or a Python \<open>float\<close>.\<close>

datatype pynum = PyInt int | PyFloat real

text \<open>What is assigned to a slot: a plain number or a \<open>Cell\<close> object.\<close>

datatype cell_val = Number real | CellObj ref

fun to_real :: "pynum \<Rightarrow> real" where
  "to_real (PyInt i) = of_int i"
| "to_real (PyFloat x) = x"

text \<open>Python's \<open>int(x)\<close> truncates towards zero.\<close>

fun py_int :: "pynum \<Rightarrow> int" where
  "py_int (PyInt i) = i"
| "py_int (PyFloat x) = (if 0 \<le> x then \<lfloor>x\<rfloor> else \<lceil>x\<rceil>)"

text \<open>The test \<open>abs(_x - int(_x)) > 0.000_001\<close>.\<close>

definition not_integer :: "pynum \<Rightarrow> bool" where
  "not_integer x = (\<bar>to_real x - of_int (py_int x)\<bar> > 1 / 1000000)"

text \<open>
  Subscripting a Python list: a \<open>float\<close> subscript raises \<open>TypeError\<close>, a negative
  \<open>int\<close> counts from the end, and an \<open>int\<close> outside the list raises \<open>IndexError\<close>.
  The result is the position the subscript denotes.
\<close>

definition list_index :: "'a list \<Rightarrow> pynum \<Rightarrow> error + nat" where
  "list_index xs i =
     (case i of
        PyFloat _ \<Rightarrow> Inl TypeError
      | PyInt k \<Rightarrow>
          (let n = int (length xs); j = (if k < 0 then k + n else k)
           in if 0 \<le> j \<and> j < n then Inr (nat j) else Inl IndexError))"

definition shape :: "heap \<Rightarrow> spreadsheet \<Rightarrow> nat \<times> nat" where
  "shape h sp = shape_of (indices h ! sp_cell_indices sp)"

text \<open>
  \<open>copy.deepcopy\<close> of a \<open>CellIndices\<close> object allocates a new object with the same
  content. \<open>copy.deepcopy\<close> of a \<open>Cell\<close> copies the \<open>CellIndices\<close> object its attribute
  points at as well, and the new cell points at that copy.
\<close>

definition deepcopy_indices :: "heap \<Rightarrow> ref \<Rightarrow> ref \<times> heap" where
  "deepcopy_indices h ci = alloc_indices h (indices h ! ci)"

definition deepcopy_cell :: "heap \<Rightarrow> ref \<Rightarrow> ref \<times> heap" where
  "deepcopy_cell h a =
     (let (i, h1) = deepcopy_indices h (cell_indices (cells h ! a))
      in alloc_cell h1 ((cells h ! a)\<lparr>cell_indices := i\<rparr>))"

text \<open>The setter of \<open>Cell.coordinates\<close> and the assignment to \<open>Cell.cell_indices\<close>.\<close>

definition set_coordinates :: "heap \<Rightarrow> ref \<Rightarrow> int \<times> int \<Rightarrow> heap" where
  "set_coordinates h a coordinates =
     h\<lparr>cells := (cells h)[a := (cells h ! a)\<lparr>row := Some (fst coordinates),
                                             column := Some (snd coordinates)\<rparr>]\<rparr>"

definition set_cell_indices :: "heap \<Rightarrow> ref \<Rightarrow> ref \<Rightarrow> heap" where
  "set_cell_indices h a ci = h\<lparr>cells := (cells h)[a := (cells h ! a)\<lparr>cell_indices := ci\<rparr>]\<rparr>"

subsubsection \<open>Construction\<close>

text \<open>The two loops of \<open>_initialise_array\<close>; \<open>range(n)\<close> is \<open>[0..<n]\<close>.\<close>

fun initialise_row ::
  "heap \<Rightarrow> ref \<Rightarrow> nat \<Rightarrow> nat list \<Rightarrow> ref list \<Rightarrow> error + (ref list \<times> heap)" where
  "initialise_row h ci row_idx [] row_acc = Inr (row_acc, h)"
| "initialise_row h ci row_idx (col_idx # cols) row_acc =
     (case Cell_init (Some (int row_idx)) (Some (int col_idx)) None ci value_only None of
        Inl e \<Rightarrow> Inl e
      | Inr c \<Rightarrow>
          (let (a, h1) = alloc_cell h c
           in initialise_row h1 ci row_idx cols (row_acc @ [a])))"

fun initialise_rows ::
  "heap \<Rightarrow> ref \<Rightarrow> nat list \<Rightarrow> ref list list \<Rightarrow> error + (ref list list \<times> heap)" where
  "initialise_rows h ci [] array = Inr (array, h)"
| "initialise_rows h ci (row_idx # rows) array =
     (case initialise_row h ci row_idx [0..<snd (shape_of (indices h ! ci))] [] of
        Inl e \<Rightarrow> Inl e
      | Inr (r, h1) \<Rightarrow> initialise_rows h1 ci rows (array @ [r]))"

definition initialise_array :: "heap \<Rightarrow> ref \<Rightarrow> error + (ref list list \<times> heap)" where
  "initialise_array h ci = initialise_rows h ci [0..<fst (shape_of (indices h ! ci))] []"

text \<open>\<open>Spreadsheet.__init__\<close>, as far as the grid is concerned.\<close>

definition Spreadsheet_init :: "heap \<Rightarrow> ref \<Rightarrow> error + (heap \<times> spreadsheet)" where
  "Spreadsheet_init h cell_indices_arg =
     (let (i, h1) = deepcopy_indices h cell_indices_arg
      in case initialise_array h1 i of
           Inl e \<Rightarrow> Inl e
         | Inr (array, h2) \<Rightarrow> Inr (h2, \<lparr>sp_cell_indices = i, sheet = array\<rparr>))"

subsubsection \<open>Item access\<close>

text \<open>
  \<open>_set_item\<close>. The new cell is built first and the slot is assigned last. The
  coordinates kept in the new cell are those handed in; when one of them is a \<open>float\<close>
  the assignment to the slot raises \<open>TypeError\<close> and the new cell is lost, so the
  position of a cell that is kept is always a pair of integers.
\<close>

definition set_item ::
  "heap \<Rightarrow> spreadsheet \<Rightarrow> cell_val \<Rightarrow> pynum \<times> pynum \<Rightarrow> error + (heap \<times> spreadsheet)" where
  "set_item h sp v index_integer =
     (let x = fst index_integer; y = snd index_integer
      in if not_integer x \<or> not_integer y then Inl IndexError
         else
           (case (case v of
                    CellObj a \<Rightarrow>
                      (if anchored (cells h ! a) then reference h a
                       else (let (a', h1) = deepcopy_cell h a
                             in Inr (a', set_coordinates h1 a' (py_int x, py_int y))))
                  | Number n \<Rightarrow>
                      (case Cell_init (Some (py_int x)) (Some (py_int y)) (Some n)
                              (sp_cell_indices sp) value_only None of
                         Inl e \<Rightarrow> Inl e
                       | Inr c \<Rightarrow> Inr (alloc_cell h c))) of
              Inl e \<Rightarrow> Inl e
            | Inr (a', h') \<Rightarrow>
                (case list_index (sheet sp) x of
                   Inl e \<Rightarrow> Inl e
                 | Inr i \<Rightarrow>
                     (case list_index (sheet sp ! i) y of
                        Inl e \<Rightarrow> Inl e
                      | Inr j \<Rightarrow>
                          Inr (h', sp\<lparr>sheet := (sheet sp)[i := (sheet sp ! i)[j := a']]\<rparr>)))))"

text \<open>\<open>_get_item\<close>: the subscripts are \<open>int(_x)\<close> and \<open>int(_y)\<close>.\<close>

definition get_item :: "spreadsheet \<Rightarrow> pynum \<times> pynum \<Rightarrow> error + ref" where
  "get_item sp index_integer =
     (let x = fst index_integer; y = snd index_integer
      in if not_integer x \<or> not_integer y then Inl IndexError
         else
           (case list_index (sheet sp) (PyInt (py_int x)) of
              Inl e \<Rightarrow> Inl e
            | Inr i \<Rightarrow>
                (case list_index (sheet sp ! i) (PyInt (py_int y)) of
                   Inl e \<Rightarrow> Inl e
                 | Inr j \<Rightarrow> Inr (sheet sp ! i ! j))))"

subsubsection \<open>Resizing\<close>

text \<open>
  Modelled from the spec: \<open>CellIndices.expand_size\<close> is missing. It returns a new
  \<open>CellIndices\<close> object with the rows and columns appended and the label and help-text
  sequences extended; the object it is called on is left as it is.
\<close>

definition expand_size ::
  "heap \<Rightarrow> ref \<Rightarrow> nat \<Rightarrow> nat \<Rightarrow> string list \<Rightarrow> string list \<Rightarrow> string list \<Rightarrow> string list
     \<Rightarrow> ref \<times> heap" where
  "expand_size h ci new_number_of_rows new_number_of_columns new_rows_labels
       new_columns_labels new_rows_help_text new_columns_help_text =
     (let old = indices h ! ci
      in alloc_indices h
           (old\<lparr>number_of_rows := number_of_rows old + new_number_of_rows,
                number_of_columns := number_of_columns old + new_number_of_columns,
                rows_labels := rows_labels old @ new_rows_labels,
                columns_labels := columns_labels old @ new_columns_labels,
                rows_help_text := rows_help_text old @ new_rows_help_text,
                columns_help_text := columns_help_text old @ new_columns_help_text\<rparr>))"

text \<open>
  The loops of \<open>expand_using_cell_indices\<close>. A wholly new row is filled with cells
  built by \<open>Cell(cell_indices=self.cell_indices)\<close> and appended to the sheet.
\<close>

fun new_row_loop :: "heap \<Rightarrow> ref \<Rightarrow> nat list \<Rightarrow> ref list \<Rightarrow> error + (ref list \<times> heap)" where
  "new_row_loop h ci [] row_acc = Inr (row_acc, h)"
| "new_row_loop h ci (col # cols) row_acc =
     (case Cell_init None None None ci value_only None of
        Inl e \<Rightarrow> Inl e
      | Inr c \<Rightarrow>
          (let (a, h1) = alloc_cell h c
           in new_row_loop h1 ci cols (row_acc @ [a])))"

text \<open>
  An existing row gets one new cell for each added column:
  \<open>self._sheet[row_idx].append(Cell(cell_indices=self.cell_indices))\<close>.
\<close>

fun expand_columns_loop ::
  "heap \<Rightarrow> spreadsheet \<Rightarrow> nat \<Rightarrow> nat list \<Rightarrow> error + (heap \<times> spreadsheet)" where
  "expand_columns_loop h sp row_idx [] = Inr (h, sp)"
| "expand_columns_loop h sp row_idx (col # cols) =
     (case list_index (sheet sp) (PyInt (int row_idx)) of
        Inl e \<Rightarrow> Inl e
      | Inr i \<Rightarrow>
          (case Cell_init None None None (sp_cell_indices sp) value_only None of
             Inl e \<Rightarrow> Inl e
           | Inr c \<Rightarrow>
               (let (a, h1) = alloc_cell h c
                in expand_columns_loop h1 (sp\<lparr>sheet := (sheet sp)[i := sheet sp ! i @ [a]]\<rparr>)
                     row_idx cols)))"

text \<open>
  Every cell of the row is pointed at the new indices:
  \<open>self.iloc[row_idx, col_idx].cell_indices = self.cell_indices\<close>, where reading
  \<open>iloc\<close> at a pair of integers is \<open>_get_item\<close>.
\<close>

fun refresh_loop :: "heap \<Rightarrow> spreadsheet \<Rightarrow> nat \<Rightarrow> nat list \<Rightarrow> error + heap" where
  "refresh_loop h sp row_idx [] = Inr h"
| "refresh_loop h sp row_idx (col_idx # cols) =
     (case get_item sp (PyInt (int row_idx), PyInt (int col_idx)) of
        Inl e \<Rightarrow> Inl e
      | Inr a \<Rightarrow> refresh_loop (set_cell_indices h a (sp_cell_indices sp)) sp row_idx cols)"

fun expand_rows_loop ::
  "heap \<Rightarrow> spreadsheet \<Rightarrow> nat \<times> nat \<Rightarrow> nat list \<Rightarrow> error + (heap \<times> spreadsheet)" where
  "expand_rows_loop h sp shape_origin [] = Inr (h, sp)"
| "expand_rows_loop h sp shape_origin (row_idx # rows) =
     (case (if fst shape_origin \<le> row_idx
            then (case new_row_loop h (sp_cell_indices sp) [0..<snd (shape h sp)] [] of
                    Inl e \<Rightarrow> Inl e
                  | Inr (r, h1) \<Rightarrow> Inr (h1, sp\<lparr>sheet := sheet sp @ [r]\<rparr>))
            else expand_columns_loop h sp row_idx
                   [0..<snd (shape h sp) - snd shape_origin]) of
        Inl e \<Rightarrow> Inl e
      | Inr (h1, sp1) \<Rightarrow>
          (case refresh_loop h1 sp1 row_idx [0..<snd (shape h1 sp1)] of
             Inl e \<Rightarrow> Inl e
           | Inr h2 \<Rightarrow> expand_rows_loop h2 sp1 shape_origin rows))"

definition expand_using_cell_indices ::
  "heap \<Rightarrow> spreadsheet \<Rightarrow> ref \<Rightarrow> error + (heap \<times> spreadsheet)" where
  "expand_using_cell_indices h sp cell_indices_arg =
     (let shape_origin = shape h sp;
          (i, h1) = deepcopy_indices h cell_indices_arg;
          sp1 = sp\<lparr>sp_cell_indices := i\<rparr>
      in expand_rows_loop h1 sp1 shape_origin [0..<fst (shape h1 sp1)])"

definition expand ::
  "heap \<Rightarrow> spreadsheet \<Rightarrow> nat \<Rightarrow> nat \<Rightarrow> string list \<Rightarrow> string list \<Rightarrow> string list
     \<Rightarrow> string list \<Rightarrow> error + (heap \<times> spreadsheet)" where
  "expand h sp new_number_of_rows new_number_of_columns new_rows_labels new_columns_labels
       new_rows_help_text new_columns_help_text =
     (let (ci, h1) = expand_size h (sp_cell_indices sp) new_number_of_rows
                       new_number_of_columns new_rows_labels new_columns_labels
                       new_rows_help_text new_columns_help_text
      in expand_using_cell_indices h1 sp ci)"

subsection \<open>Well-formed states\<close>

text \<open>
  A sheet is well formed in a store when its indices exist, it has as many rows and
  columns as its shape says, and every slot holds the address of an existing cell.
\<close>

definition wf_sheet :: "heap \<Rightarrow> spreadsheet \<Rightarrow> bool" where
  "wf_sheet h sp =
     (sp_cell_indices sp < length (indices h) \<and>
      length (sheet sp) = fst (shape h sp) \<and>
      list_all (\<lambda>r. length r = snd (shape h sp) \<and> list_all (\<lambda>a. a < length (cells h)) r)
        (sheet sp))"

text \<open>A small store used for concrete runs: one \<open>CellIndices\<close> object of shape 1 by 2.\<close>

definition demo_indices :: CellIndices where
  "demo_indices =
     \<lparr>number_of_rows = 1, number_of_columns = 2, rows_labels = [''r0''],
      columns_labels = [''c0'', ''c1''], rows_help_text = [''h0''],
      columns_help_text = [''k0'', ''k1'']\<rparr>"

definition demo_heap :: heap where
  "demo_heap = \<lparr>cells = [], indices = [demo_indices]\<rparr>"

text \<open>The sheet the constructor builds on it, and the store afterwards.\<close>

definition demo_sheet :: spreadsheet where
  "demo_sheet = \<lparr>sp_cell_indices = 1, sheet = [[0, 1]]\<rparr>"

definition demo_grid_heap :: heap where
  "demo_grid_heap =
     \<lparr>cells =
        [\<lparr>row = Some 0, column = Some 0, cell_value = None, cell_type = value_only,
          cell_indices = 1, constructing_words = Reference 0 0\<rparr>,
         \<lparr>row = Some 0, column = Some 1, cell_value = None, cell_type = value_only,
          cell_indices = 1, constructing_words = Reference 0 1\<rparr>],
      indices = [demo_indices, demo_indices]\<rparr>"

text \<open>
  A store of loose cells: two anchored cells holding 2 and 5, free cells holding 8 and
  0, and two free cells of another \<open>CellIndices\<close> object, one empty and one holding 3.
\<close>

definition demo_cells :: heap where
  "demo_cells =
     \<lparr>cells =
        [\<lparr>row = Some 0, column = Some 0, cell_value = Some 2, cell_type = value_only,
          cell_indices = 0, constructing_words = Constant (Some 2)\<rparr>,
         \<lparr>row = Some 0, column = Some 1, cell_value = Some 5, cell_type = value_only,
          cell_indices = 0, constructing_words = Constant (Some 5)\<rparr>,
         \<lparr>row = None, column = None, cell_value = Some 8, cell_type = value_only,
          cell_indices = 0, constructing_words = Constant (Some 8)\<rparr>,
         \<lparr>row = None, column = None, cell_value = Some 0, cell_type = value_only,
          cell_indices = 0, constructing_words = Constant (Some 0)\<rparr>,
         \<lparr>row = None, column = None, cell_value = None, cell_type = value_only,
          cell_indices = 1, constructing_words = Constant None\<rparr>,
         \<lparr>row = None, column = None, cell_value = Some 3, cell_type = value_only,
          cell_indices = 1, constructing_words = Constant (Some 3)\<rparr>],
      indices = [demo_indices, demo_indices]\<rparr>"


text \<open>The cell a binary operation, a reference or a wrapper returns: free and computational.\<close>

definition result_cell :: "real option \<Rightarrow> ref \<Rightarrow> fragment \<Rightarrow> cell" where
  "result_cell v ci w =
     \<lparr>row = None, column = None, cell_value = v, cell_type = computational,
      cell_indices = ci, constructing_words = w\<rparr>"


text \<open>The loose anchored cells holding 2 and 5, seen as a sheet of one row.\<close>

definition demo_filled_sheet :: spreadsheet where
  "demo_filled_sheet = \<lparr>sp_cell_indices = 0, sheet = [[0, 1]]\<rparr>"

subsection \<open>Notions used in the proofs about resizing\<close>

text \<open>The cell \<open>Cell(cell_indices=ci)\<close> builds: free, empty, of the value type.\<close>

definition fresh_cell :: "ref \<Rightarrow> cell" where
  "fresh_cell ci =
     \<lparr>row = None, column = None, cell_value = None, cell_type = value_only,
      cell_indices = ci, constructing_words = Constant None\<rparr>"

text \<open>
  The store \<open>h'\<close> arises from the store \<open>h\<close> by allocating such cells and by pointing
  cells at the indices \<open>i\<close>: the indices are the same, every cell of \<open>h\<close> is as it was
  or differs in its indices pointer only, and every later cell is a fresh one.
\<close>

definition heap_step :: "ref \<Rightarrow> heap \<Rightarrow> heap \<Rightarrow> bool" where
  "heap_step i h h' =
     (indices h' = indices h \<and> length (cells h) \<le> length (cells h') \<and>
      (\<forall>a<length (cells h).
         cells h' ! a = cells h ! a \<or> cells h' ! a = (cells h ! a)\<lparr>cell_indices := i\<rparr>) \<and>
      (\<forall>a<length (cells h'). length (cells h) \<le> a \<longrightarrow> cells h' ! a = fresh_cell i))"

text \<open>
  The invariant of the loop over the rows of \<open>expand_using_cell_indices\<close>, at the moment
  the rows below \<open>k\<close> have been treated. The sheet had \<open>R\<close> rows of \<open>C\<close> columns on
  entry, in the state \<open>h0\<close>, \<open>sp0\<close>, and the new indices have \<open>C'\<close> columns.
\<close>

definition expand_inv ::
  "heap \<Rightarrow> spreadsheet \<Rightarrow> heap \<Rightarrow> spreadsheet \<Rightarrow> nat \<Rightarrow> nat \<Rightarrow> nat \<Rightarrow> nat \<Rightarrow> bool" where
  "expand_inv h0 sp0 h sp R C C' k =
     (sp_cell_indices sp = sp_cell_indices sp0 \<and>
      heap_step (sp_cell_indices sp0) h0 h \<and>
      length (sheet sp) = max R k \<and>
      (\<forall>r<length (sheet sp).
         length (sheet sp ! r) = (if r < k then (if r < R then max C C' else C') else C)) \<and>
      (\<forall>r<R. \<forall>c<C. sheet sp ! r ! c = sheet sp0 ! r ! c) \<and>
      (\<forall>r<length (sheet sp). \<forall>c<length (sheet sp ! r).
         sheet sp ! r ! c < length (cells h) \<and>
         (R \<le> r \<or> C \<le> c \<longrightarrow> length (cells h0) \<le> sheet sp ! r ! c)) \<and>
      (\<forall>r<k. \<forall>c<C'. cell_indices (cells h ! (sheet sp ! r ! c)) = sp_cell_indices sp0))"

section \<open>Properties\<close>

subsection \<open>Auxiliary facts about cells\<close>

lemma Cell_init_free:
  "Cell_init None None v ci ct (Some w) =
     Inr \<lparr>row = None, column = None, cell_value = v, cell_type = ct,
          cell_indices = ci, constructing_words = w\<rparr>"
  by (simp add: Cell_init_def)





subsection \<open>Arithmetic on cells\<close>







subsection \<open>References\<close>



subsection \<open>Logarithm and exponential\<close>

text \<open>
  Claim C6 at the free cell holding 8. \<open>Cell.exponential\<close> returns a cell holding
  \<open>exp 8\<close> whose fragment is the logarithm wrapper of the operand fragment, where the
  exponential wrapper of the word constructor is a different fragment.
  \<open>Cell.logarithm\<close> returns a cell holding \<open>ln 8\<close> with the logarithm wrapper.
\<close>

theorem exponential_fragment_is_logarithm:
  "exponential demo_cells 2 =
     Inr (alloc_cell demo_cells (result_cell (Some (exp 8)) 0 (Logarithm (Constant (Some 8))))) \<and>
   WordConstructor_exponential (cells demo_cells ! 2) = Inr (Exponential (Constant (Some 8))) \<and>
   logarithm demo_cells 2 =
     Inr (alloc_cell demo_cells (result_cell (Some (ln 8)) 0 (Logarithm (Constant (Some 8)))))"
  by (simp add: exponential_def logarithm_def np_exp_def np_log_def WordConstructor_logarithm_def
      WordConstructor_exponential_def word_def anchored_def WordConstructor_constant_def
      Cell_init_free result_cell_def demo_cells_def)

subsection \<open>Aggregations\<close>









subsection \<open>Item access\<close>

lemma list_index_PyInt:
  "list_index xs (PyInt k) =
     (if - int (length xs) \<le> k \<and> k < int (length xs)
      then Inr (nat (k mod int (length xs))) else Inl IndexError)"
proof (cases "k < 0")
  case True
  then have "k mod int (length xs) = k + int (length xs)" if "- int (length xs) \<le> k"
    using that by (smt (verit) mod_add_self2 mod_pos_pos_trivial)
  with True show ?thesis by (auto simp: list_index_def Let_def)
next
  case False
  then show ?thesis by (auto simp: list_index_def Let_def)
qed

lemma list_index_in_range:
  "0 \<le> k \<Longrightarrow> k < int (length xs) \<Longrightarrow> list_index xs (PyInt k) = Inr (nat k)"
  by (simp add: list_index_def)

lemma not_integer_PyInt [simp]: "\<not> not_integer (PyInt k)"
  by (simp add: not_integer_def)

text \<open>
  Claim C7, as the code has it. On a sheet of \<open>R\<close> rows of \<open>C\<close> columns the item
  access raises \<open>IndexError\<close> when a coordinate differs from its truncation by more than
  one millionth, or when a truncated coordinate lies outside \<open>[-R, R)\<close> or \<open>[-C, C)\<close>.
  Otherwise it returns the cell of the slot the truncated coordinates denote, where a
  negative coordinate counts from the end. In particular every pair of integers inside
  \<open>[0, R)\<close> and \<open>[0, C)\<close> yields the cell stored at that slot.
\<close>

theorem get_item_amended:
  assumes "length (sheet sp) = R" and "list_all (\<lambda>r. length r = C) (sheet sp)"
  shows "get_item sp (x, y) =
      (if not_integer x \<or> not_integer y then Inl IndexError
       else if - int R \<le> py_int x \<and> py_int x < int R \<and> - int C \<le> py_int y \<and> py_int y < int C
         then Inr (sheet sp ! nat (py_int x mod int R) ! nat (py_int y mod int C))
         else Inl IndexError) \<and>
     (0 \<le> r \<and> r < int R \<and> 0 \<le> c \<and> c < int C \<longrightarrow>
        get_item sp (PyInt r, PyInt c) = Inr (sheet sp ! nat r ! nat c))"
proof -
  have len: "length (sheet sp ! i) = C" if "i < R" for i
    using assms that by (simp add: list_all_length)
  have rowlen: "length (sheet sp ! nat (k mod int R)) = C" if "- int R \<le> k" "k < int R" for k
  proof -
    have "0 < int R" using that by linarith
    then have "k mod int R < int R" "0 \<le> k mod int R" by simp_all
    then have "nat (k mod int R) < R" by linarith
    then show ?thesis by (rule len)
  qed
  have main: "get_item sp (x, y) =
      (if not_integer x \<or> not_integer y then Inl IndexError
       else if - int R \<le> py_int x \<and> py_int x < int R \<and> - int C \<le> py_int y \<and> py_int y < int C
         then Inr (sheet sp ! nat (py_int x mod int R) ! nat (py_int y mod int C))
         else Inl IndexError)" for x y
    using rowlen [of "py_int x"] assms(1)
    by (simp add: get_item_def Let_def list_index_PyInt)
  have "get_item sp (PyInt r, PyInt c) = Inr (sheet sp ! nat r ! nat c)"
    if "0 \<le> r" "r < int R" "0 \<le> c" "c < int C"
    using that main [of "PyInt r" "PyInt c"] by simp
  then show ?thesis using main by blast
qed

theorem get_item_amended_witness:
  "get_item demo_sheet (PyInt 0, PyInt 1) = Inr 1 \<and>
   get_item demo_sheet (PyInt 1, PyInt 0) = Inl IndexError \<and>
   get_item demo_sheet (PyInt 0, PyInt (- 3)) = Inl IndexError \<and>
   get_item demo_sheet (PyFloat (1 / 2), PyInt 0) = Inl IndexError \<and>
   get_item demo_sheet (PyInt 0, PyInt (- 2)) = Inr 0"
  using get_item_amended [of demo_sheet 1 2 "PyInt 0" "PyInt 1" 0 1]
    get_item_amended [of demo_sheet 1 2 "PyInt 1" "PyInt 0" 0 1]
    get_item_amended [of demo_sheet 1 2 "PyInt 0" "PyInt (- 3)" 0 1]
    get_item_amended [of demo_sheet 1 2 "PyFloat (1 / 2)" "PyInt 0" 0 1]
    get_item_amended [of demo_sheet 1 2 "PyInt 0" "PyInt (- 2)" 0 1]
  by (simp add: demo_sheet_def not_integer_def)

text \<open>
  Claim C7 as stated fails on the sheet of one row and two columns: the coordinates
  \<open>(-1, -1)\<close> yield the last cell, and the row coordinate \<open>0.0000001\<close>, which is not an
  integer, yields a cell of row 0.
\<close>

theorem get_item_counterexample:
  "get_item demo_sheet (PyInt (- 1), PyInt (- 1)) = Inr 1 \<and>
   get_item demo_sheet (PyFloat (1 / 10000000), PyInt 1) = Inr 1"
  by (simp add: get_item_def demo_sheet_def not_integer_def list_index_def)



text \<open>
  Claim C2 on the sheet of one row and two columns the constructor builds. The cell of
  slot \<open>(0, 0)\<close> is anchored; assigning it to slot \<open>(0, 1)\<close> puts there the cell
  \<open>Cell.reference\<close> returns, which has no row and no column.
\<close>

theorem set_item_reference_is_free:
  "Spreadsheet_init demo_heap 0 = Inr (demo_grid_heap, demo_sheet) \<and>
   get_item demo_sheet (PyInt 0, PyInt 0) = Inr 0 \<and>
   anchored (cells demo_grid_heap ! 0) \<and>
   set_item demo_grid_heap demo_sheet (CellObj 0) (PyInt 0, PyInt 1) =
     Inr (demo_grid_heap\<lparr>cells := cells demo_grid_heap @ [result_cell None 1 (Reference 0 0)]\<rparr>,
          \<lparr>sp_cell_indices = 1, sheet = [[0, 2]]\<rparr>) \<and>
   \<not> anchored (result_cell None 1 (Reference 0 0))"
  by (simp add: Spreadsheet_init_def demo_heap_def demo_grid_heap_def demo_sheet_def
      deepcopy_indices_def alloc_indices_def initialise_array_def shape_of_def demo_indices_def
      Cell_init_def init_from_new_cell_def alloc_cell_def upt_rec get_item_def list_index_def
      set_item_def anchored_def reference_def WordConstructor_reference_def result_cell_def)

subsection \<open>Resizing and the ownership of the indices\<close>

lemma Cell_init_fresh: "Cell_init None None None ci value_only None = Inr (fresh_cell ci)"
  by (simp add: Cell_init_def init_from_new_cell_def WordConstructor_constant_def fresh_cell_def)

lemma Cell_init_anchored:
  "Cell_init (Some r) (Some k) None ci value_only None =
     Inr \<lparr>row = Some r, column = Some k, cell_value = None, cell_type = value_only,
          cell_indices = ci, constructing_words = Reference r k\<rparr>"
  by (simp add: Cell_init_def init_from_new_cell_def)

lemma heap_step_refl: "heap_step i h h"
  by (simp add: heap_step_def)

lemma heap_step_trans:
  assumes "heap_step i h1 h2" and "heap_step i h2 h3"
  shows "heap_step i h1 h3"
  unfolding heap_step_def
proof (intro conjI allI impI)
  show "indices h3 = indices h1" using assms by (simp add: heap_step_def)
  show "length (cells h1) \<le> length (cells h3)" using assms by (simp add: heap_step_def)
next
  fix a assume a: "a < length (cells h1)"
  then have a2: "a < length (cells h2)" using assms(1) by (simp add: heap_step_def)
  have "cells h2 ! a = cells h1 ! a \<or> cells h2 ! a = (cells h1 ! a)\<lparr>cell_indices := i\<rparr>"
    using assms(1) a by (simp add: heap_step_def)
  moreover have "cells h3 ! a = cells h2 ! a \<or> cells h3 ! a = (cells h2 ! a)\<lparr>cell_indices := i\<rparr>"
    using assms(2) a2 by (simp add: heap_step_def)
  ultimately show "cells h3 ! a = cells h1 ! a \<or> cells h3 ! a = (cells h1 ! a)\<lparr>cell_indices := i\<rparr>"
    by auto
next
  fix a assume a: "a < length (cells h3)" "length (cells h1) \<le> a"
  show "cells h3 ! a = fresh_cell i"
  proof (cases "a < length (cells h2)")
    case True
    then have "cells h2 ! a = fresh_cell i" using assms(1) a by (simp add: heap_step_def)
    moreover have "cells h3 ! a = cells h2 ! a \<or> cells h3 ! a = (cells h2 ! a)\<lparr>cell_indices := i\<rparr>"
      using assms(2) True by (simp add: heap_step_def)
    ultimately show ?thesis by (auto simp: fresh_cell_def)
  next
    case False
    then show ?thesis using assms(2) a by (simp add: heap_step_def)
  qed
qed

lemma heap_step_append:
  "heap_step i h (h\<lparr>cells := cells h @ replicate n (fresh_cell i)\<rparr>)"
  by (auto simp: heap_step_def nth_append)

lemma heap_step_set: "heap_step i h (set_cell_indices h a i)"
proof -
  have "(cells h)[a := (cells h ! a)\<lparr>cell_indices := i\<rparr>] ! b = cells h ! b \<or>
      (cells h)[a := (cells h ! a)\<lparr>cell_indices := i\<rparr>] ! b = (cells h ! b)\<lparr>cell_indices := i\<rparr>"
    if "b < length (cells h)" for b
    using that by (cases "a = b") simp_all
  then show ?thesis
    by (simp add: heap_step_def set_cell_indices_def)
qed

lemma heap_step_keeps_ci:
  "heap_step i h h' \<Longrightarrow> a < length (cells h) \<Longrightarrow> cell_indices (cells h ! a) = i
     \<Longrightarrow> cell_indices (cells h' ! a) = i"
  by (auto simp: heap_step_def)

lemma new_row_loop_char:
  "new_row_loop h ci cols acc =
     Inr (acc @ [length (cells h)..<length (cells h) + length cols],
          h\<lparr>cells := cells h @ replicate (length cols) (fresh_cell ci)\<rparr>)"
proof (induction cols arbitrary: h acc)
  case Nil
  then show ?case by simp
next
  case (Cons c cols)
  show ?case
    by (simp add: Cell_init_fresh alloc_cell_def Cons.IH upt_conv_Cons del: upt_Suc)
qed

lemma expand_columns_loop_char:
  "r < length (sheet sp) \<Longrightarrow>
   expand_columns_loop h sp r cols =
     Inr (h\<lparr>cells := cells h @ replicate (length cols) (fresh_cell (sp_cell_indices sp))\<rparr>,
          sp\<lparr>sheet := (sheet sp)[r := sheet sp ! r @
                          [length (cells h)..<length (cells h) + length cols]]\<rparr>)"
proof (induction cols arbitrary: h sp)
  case Nil
  then show ?case by simp
next
  case (Cons c cols)
  have idx: "list_index (sheet sp) (PyInt (int r)) = Inr r"
    using Cons.prems by (simp add: list_index_in_range)
  show ?case
    using Cons.prems
    by (simp add: idx Cell_init_fresh alloc_cell_def Cons.IH upt_conv_Cons del: upt_Suc)
qed

lemma refresh_loop_ok:
  assumes "r < length (sheet sp)" and "\<forall>c\<in>set cols. c < length (sheet sp ! r)"
  shows "\<exists>h'. refresh_loop h sp r cols = Inr h' \<and> heap_step (sp_cell_indices sp) h h' \<and>
     length (cells h') = length (cells h) \<and>
     (\<forall>c\<in>set cols. sheet sp ! r ! c < length (cells h) \<longrightarrow>
        cell_indices (cells h' ! (sheet sp ! r ! c)) = sp_cell_indices sp)"
  using assms
proof (induction cols arbitrary: h)
  case Nil
  then show ?case by (simp add: heap_step_refl)
next
  case (Cons c cols)
  let ?i = "sp_cell_indices sp"
  let ?a = "sheet sp ! r ! c"
  let ?h1 = "set_cell_indices h ?a ?i"
  have get: "get_item sp (PyInt (int r), PyInt (int c)) = Inr ?a"
    using Cons.prems by (simp add: get_item_def list_index_in_range)
  obtain h' where h': "refresh_loop ?h1 sp r cols = Inr h'" "heap_step ?i ?h1 h'"
    "length (cells h') = length (cells ?h1)"
    "\<forall>c\<in>set cols. sheet sp ! r ! c < length (cells ?h1) \<longrightarrow>
        cell_indices (cells h' ! (sheet sp ! r ! c)) = ?i"
    using Cons.IH [of ?h1] Cons.prems by auto
  have len1: "length (cells ?h1) = length (cells h)"
    by (simp add: set_cell_indices_def)
  have first: "cell_indices (cells h' ! ?a) = ?i" if "?a < length (cells h)"
  proof -
    have "cell_indices (cells ?h1 ! ?a) = ?i"
      using that by (simp add: set_cell_indices_def)
    then show ?thesis using heap_step_keeps_ci [OF h'(2)] that len1 by simp
  qed
  have "heap_step ?i h h'"
    using heap_step_trans [OF heap_step_set h'(2)] .
  then show ?case
    using get h' len1 first by auto
qed


lemma expand_row_step_new:
  assumes inv: "expand_inv h0 sp0 h sp R C C' k"
    and C': "snd (shape h0 sp0) = C'" and new: "R \<le> k"
  shows "\<exists>h2 sp2. expand_rows_loop h sp (R, C) (k # rows) = expand_rows_loop h2 sp2 (R, C) rows \<and>
     expand_inv h0 sp0 h2 sp2 R C C' (Suc k)"
proof -
  let ?i = "sp_cell_indices sp0"
  let ?L = "length (cells h)"
  let ?h1 = "h\<lparr>cells := cells h @ replicate C' (fresh_cell ?i)\<rparr>"
  let ?sp1 = "sp\<lparr>sheet := sheet sp @ [[?L..<?L + C']]\<rparr>"
  have spi: "sp_cell_indices sp = ?i" and st: "heap_step ?i h0 h"
    and len: "length (sheet sp) = k"
    and rows: "\<forall>r<k. length (sheet sp ! r) = (if r < R then max C C' else C')"
    and old: "\<forall>r<R. \<forall>c<C. sheet sp ! r ! c = sheet sp0 ! r ! c"
    and refs: "\<forall>r<k. \<forall>c<length (sheet sp ! r).
         sheet sp ! r ! c < ?L \<and> (R \<le> r \<or> C \<le> c \<longrightarrow> length (cells h0) \<le> sheet sp ! r ! c)"
    and pointed: "\<forall>r<k. \<forall>c<C'. cell_indices (cells h ! (sheet sp ! r ! c)) = ?i"
    using inv new by (simp_all add: expand_inv_def max_def)
  have sh: "shape h sp = shape h0 sp0"
    using st spi by (simp add: shape_def heap_step_def)
  have sh1: "shape ?h1 ?sp1 = shape h0 sp0"
    using st spi by (simp add: shape_def heap_step_def)
  have row: "new_row_loop h (sp_cell_indices sp) [0..<C'] [] = Inr ([?L..<?L + C'], ?h1)"
    by (simp add: new_row_loop_char spi)
  obtain h2 where h2: "refresh_loop ?h1 ?sp1 k [0..<C'] = Inr h2" "heap_step ?i ?h1 h2"
    "length (cells h2) = length (cells ?h1)"
    "\<forall>c\<in>set [0..<C']. sheet ?sp1 ! k ! c < length (cells ?h1) \<longrightarrow>
        cell_indices (cells h2 ! (sheet ?sp1 ! k ! c)) = ?i"
    using refresh_loop_ok [of k ?sp1 "[0..<C']" ?h1] len spi by (auto simp: nth_append)
  have run: "expand_rows_loop h sp (R, C) (k # rows) = expand_rows_loop h2 ?sp1 (R, C) rows"
    using new row h2(1) by (simp add: sh sh1 C')
  have st1: "heap_step ?i h ?h1" by (rule heap_step_append)
  have st2: "heap_step ?i h h2" using heap_step_trans [OF st1 h2(2)] .
  have st02: "heap_step ?i h0 h2" using heap_step_trans [OF st st2] .
  have L0: "length (cells h0) \<le> ?L" using st by (simp add: heap_step_def)
  have len2: "length (cells h2) = ?L + C'" using h2(3) by simp
  have i1: "sp_cell_indices ?sp1 = ?i" using spi by simp
  have i3: "length (sheet ?sp1) = max R (Suc k)" using len new by simp
  have i4: "\<forall>r<length (sheet ?sp1).
         length (sheet ?sp1 ! r) = (if r < Suc k then (if r < R then max C C' else C') else C)"
    using len rows new by (auto simp: nth_append less_Suc_eq)
  have i5: "\<forall>r<R. \<forall>c<C. sheet ?sp1 ! r ! c = sheet sp0 ! r ! c"
    using old len new by (simp add: nth_append)
  have i6: "\<forall>r<length (sheet ?sp1). \<forall>c<length (sheet ?sp1 ! r).
         sheet ?sp1 ! r ! c < length (cells h2) \<and>
         (R \<le> r \<or> C \<le> c \<longrightarrow> length (cells h0) \<le> sheet ?sp1 ! r ! c)"
  proof (intro allI impI)
    fix r c assume r: "r < length (sheet ?sp1)" and c: "c < length (sheet ?sp1 ! r)"
    show "sheet ?sp1 ! r ! c < length (cells h2) \<and>
         (R \<le> r \<or> C \<le> c \<longrightarrow> length (cells h0) \<le> sheet ?sp1 ! r ! c)"
    proof (cases "r < k")
      case True
      then have c': "c < length (sheet sp ! r)" using c len by (simp add: nth_append)
      have "sheet sp ! r ! c < ?L \<and>
          (R \<le> r \<or> C \<le> c \<longrightarrow> length (cells h0) \<le> sheet sp ! r ! c)"
        using refs True c' by blast
      then show ?thesis using True len len2 by (simp add: nth_append)
    next
      case False
      then have "r = k" using r len by simp
      then show ?thesis using c len len2 L0 by (simp add: nth_append)
    qed
  qed
  have i7: "\<forall>r<Suc k. \<forall>c<C'. cell_indices (cells h2 ! (sheet ?sp1 ! r ! c)) = ?i"
  proof (intro allI impI)
    fix r c assume r: "r < Suc k" and c: "c < C'"
    show "cell_indices (cells h2 ! (sheet ?sp1 ! r ! c)) = ?i"
    proof (cases "r < k")
      case True
      then have cl: "c < length (sheet sp ! r)" using rows c by (auto simp: max_def)
      then have "sheet sp ! r ! c < ?L" using refs True by simp
      moreover have "cell_indices (cells h ! (sheet sp ! r ! c)) = ?i" using pointed True c by simp
      ultimately have "cell_indices (cells h2 ! (sheet sp ! r ! c)) = ?i"
        using heap_step_keeps_ci [OF st2] by simp
      then show ?thesis using True len by (simp add: nth_append)
    next
      case False
      then have "r = k" using r by simp
      then show ?thesis using h2(4) c len by (simp add: nth_append)
    qed
  qed
  have "expand_inv h0 sp0 h2 ?sp1 R C C' (Suc k)"
    unfolding expand_inv_def using i1 st02 i3 i4 i5 i6 i7 by blast
  then show ?thesis using run by blast
qed


lemma expand_row_step_old:
  assumes inv: "expand_inv h0 sp0 h sp R C C' k"
    and C': "snd (shape h0 sp0) = C'" and old_row: "k < R"
  shows "\<exists>h2 sp2. expand_rows_loop h sp (R, C) (k # rows) = expand_rows_loop h2 sp2 (R, C) rows \<and>
     expand_inv h0 sp0 h2 sp2 R C C' (Suc k)"
proof -
  let ?i = "sp_cell_indices sp0"
  let ?L = "length (cells h)"
  let ?n = "C' - C"
  let ?h1 = "h\<lparr>cells := cells h @ replicate ?n (fresh_cell ?i)\<rparr>"
  let ?sp1 = "sp\<lparr>sheet := (sheet sp)[k := sheet sp ! k @ [?L..<?L + ?n]]\<rparr>"
  have spi: "sp_cell_indices sp = ?i" and st: "heap_step ?i h0 h"
    and len: "length (sheet sp) = R"
    and rows: "\<forall>r<R. length (sheet sp ! r) = (if r < k then max C C' else C)"
    and old: "\<forall>r<R. \<forall>c<C. sheet sp ! r ! c = sheet sp0 ! r ! c"
    and refs: "\<forall>r<R. \<forall>c<length (sheet sp ! r).
         sheet sp ! r ! c < ?L \<and> (R \<le> r \<or> C \<le> c \<longrightarrow> length (cells h0) \<le> sheet sp ! r ! c)"
    and pointed: "\<forall>r<k. \<forall>c<C'. cell_indices (cells h ! (sheet sp ! r ! c)) = ?i"
    using inv old_row by (simp_all add: expand_inv_def max_def)
  have lenk: "length (sheet sp ! k) = C" using rows old_row by simp
  have sh: "shape h sp = shape h0 sp0"
    using st spi by (simp add: shape_def heap_step_def)
  have sh1: "shape ?h1 ?sp1 = shape h0 sp0"
    using st spi by (simp add: shape_def heap_step_def)
  have cols: "expand_columns_loop h sp k [0..<?n] = Inr (?h1, ?sp1)"
    using expand_columns_loop_char [of k sp h "[0..<?n]"] old_row len spi by simp
  have lenk1: "length (sheet ?sp1 ! k) = max C C'"
    using lenk old_row len by (simp add: max_def)
  have pre1: "k < length (sheet ?sp1)" using len old_row by simp
  have pre2: "\<forall>c\<in>set [0..<C']. c < length (sheet ?sp1 ! k)"
    unfolding lenk1 by (auto simp: max_def)
  have "\<exists>h2. refresh_loop ?h1 ?sp1 k [0..<C'] = Inr h2 \<and>
      heap_step (sp_cell_indices ?sp1) ?h1 h2 \<and> length (cells h2) = length (cells ?h1) \<and>
      (\<forall>c\<in>set [0..<C']. sheet ?sp1 ! k ! c < length (cells ?h1) \<longrightarrow>
        cell_indices (cells h2 ! (sheet ?sp1 ! k ! c)) = sp_cell_indices ?sp1)"
    by (rule refresh_loop_ok [OF pre1 pre2])
  then obtain h2 where h2: "refresh_loop ?h1 ?sp1 k [0..<C'] = Inr h2" "heap_step ?i ?h1 h2"
    "length (cells h2) = length (cells ?h1)"
    "\<forall>c\<in>set [0..<C']. sheet ?sp1 ! k ! c < length (cells ?h1) \<longrightarrow>
        cell_indices (cells h2 ! (sheet ?sp1 ! k ! c)) = ?i"
    using spi by auto
  have run: "expand_rows_loop h sp (R, C) (k # rows) = expand_rows_loop h2 ?sp1 (R, C) rows"
    using old_row cols h2(1) by (simp add: sh sh1 C')
  have st1: "heap_step ?i h ?h1" by (rule heap_step_append)
  have st2: "heap_step ?i h h2" using heap_step_trans [OF st1 h2(2)] .
  have st02: "heap_step ?i h0 h2" using heap_step_trans [OF st st2] .
  have L0: "length (cells h0) \<le> ?L" using st by (simp add: heap_step_def)
  have len2: "length (cells h2) = ?L + ?n" using h2(3) by simp
  have other: "sheet ?sp1 ! r = sheet sp ! r" if "r \<noteq> k" for r
    using that by simp
  have this_row: "sheet ?sp1 ! k = sheet sp ! k @ [?L..<?L + ?n]"
    using old_row len by simp
  have i1: "sp_cell_indices ?sp1 = ?i" using spi by simp
  have i3: "length (sheet ?sp1) = max R (Suc k)" using len old_row by simp
  have i4: "\<forall>r<length (sheet ?sp1).
         length (sheet ?sp1 ! r) = (if r < Suc k then (if r < R then max C C' else C') else C)"
  proof (intro allI impI)
    fix r assume r: "r < length (sheet ?sp1)"
    show "length (sheet ?sp1 ! r) = (if r < Suc k then (if r < R then max C C' else C') else C)"
    proof (cases "r = k")
      case True
      then show ?thesis using lenk1 old_row by simp
    next
      case False
      then show ?thesis using other [OF False] rows r len by (auto simp: less_Suc_eq)
    qed
  qed
  have i5: "\<forall>r<R. \<forall>c<C. sheet ?sp1 ! r ! c = sheet sp0 ! r ! c"
  proof (intro allI impI)
    fix r c assume r: "r < R" and c: "c < C"
    show "sheet ?sp1 ! r ! c = sheet sp0 ! r ! c"
    proof (cases "r = k")
      case True
      then show ?thesis using this_row lenk c old r by (simp add: nth_append)
    next
      case False
      then show ?thesis using other [OF False] old r c by simp
    qed
  qed
  have i6: "\<forall>r<length (sheet ?sp1). \<forall>c<length (sheet ?sp1 ! r).
         sheet ?sp1 ! r ! c < length (cells h2) \<and>
         (R \<le> r \<or> C \<le> c \<longrightarrow> length (cells h0) \<le> sheet ?sp1 ! r ! c)"
  proof (intro allI impI)
    fix r c assume r: "r < length (sheet ?sp1)" and c: "c < length (sheet ?sp1 ! r)"
    have rR: "r < R" using r len by simp
    show "sheet ?sp1 ! r ! c < length (cells h2) \<and>
         (R \<le> r \<or> C \<le> c \<longrightarrow> length (cells h0) \<le> sheet ?sp1 ! r ! c)"
    proof (cases "r = k")
      case True
      show ?thesis
      proof (cases "c < C")
        case True
        have "sheet sp ! k ! c < ?L \<and>
            (R \<le> k \<or> C \<le> c \<longrightarrow> length (cells h0) \<le> sheet sp ! k ! c)"
          using refs old_row True lenk by simp
        then show ?thesis using \<open>r = k\<close> True this_row lenk len2 by (simp add: nth_append)
      next
        case False
        have "c - C < ?n" using c \<open>r = k\<close> lenk1 False by (simp add: max_def split: if_splits)
        then show ?thesis using \<open>r = k\<close> False this_row lenk len2 L0
          by (simp add: nth_append) arith
      qed
    next
      case False
      have c': "c < length (sheet sp ! r)" using c other [OF False] by simp
      have "sheet sp ! r ! c < ?L \<and>
          (R \<le> r \<or> C \<le> c \<longrightarrow> length (cells h0) \<le> sheet sp ! r ! c)"
        using refs rR c' by blast
      then show ?thesis using other [OF False] len2 by simp
    qed
  qed
  have i7: "\<forall>r<Suc k. \<forall>c<C'. cell_indices (cells h2 ! (sheet ?sp1 ! r ! c)) = ?i"
  proof (intro allI impI)
    fix r c assume r: "r < Suc k" and c: "c < C'"
    show "cell_indices (cells h2 ! (sheet ?sp1 ! r ! c)) = ?i"
    proof (cases "r < k")
      case True
      then have rR: "r < R" using old_row by simp
      have cl: "c < length (sheet sp ! r)" using rows rR True c by (simp add: max_def)
      then have "sheet sp ! r ! c < ?L" using refs rR by simp
      moreover have "cell_indices (cells h ! (sheet sp ! r ! c)) = ?i"
        using pointed True c by simp
      ultimately have "cell_indices (cells h2 ! (sheet sp ! r ! c)) = ?i"
        using heap_step_keeps_ci [OF st2] by simp
      then show ?thesis using True other [of r] by simp
    next
      case False
      then have rk: "r = k" using r by simp
      have ck: "c < length (sheet ?sp1 ! k)" using lenk1 c by (simp add: max_def)
      have "sheet ?sp1 ! k ! c < length (cells h2)"
        using i6 pre1 ck by blast
      then have "sheet ?sp1 ! k ! c < length (cells ?h1)" using h2(3) by simp
      then show ?thesis using h2(4) c rk by simp
    qed
  qed
  have "expand_inv h0 sp0 h2 ?sp1 R C C' (Suc k)"
    unfolding expand_inv_def using i1 st02 i3 i4 i5 i6 i7 by blast
  then show ?thesis using run by blast
qed

lemma expand_rows_loop_inv:
  assumes "expand_inv h0 sp0 h sp R C C' k" and "snd (shape h0 sp0) = C'"
  shows "\<exists>h' sp'. expand_rows_loop h sp (R, C) [k..<k + d] = Inr (h', sp') \<and>
     expand_inv h0 sp0 h' sp' R C C' (k + d)"
  using assms
proof (induction d arbitrary: h sp k)
  case 0
  then show ?case by simp
next
  case (Suc d)
  obtain h2 sp2 where step:
    "expand_rows_loop h sp (R, C) (k # [Suc k..<Suc k + d]) =
       expand_rows_loop h2 sp2 (R, C) [Suc k..<Suc k + d]"
    "expand_inv h0 sp0 h2 sp2 R C C' (Suc k)"
    using expand_row_step_new [OF Suc.prems] expand_row_step_old [OF Suc.prems]
    by (cases "R \<le> k") (fastforce+)
  have "[k..<k + Suc d] = k # [Suc k..<Suc k + d]"
    by (simp add: upt_conv_Cons del: upt_Suc)
  then show ?case
    using Suc.IH [OF step(2) Suc.prems(2)] step(1) by simp
qed


lemma wf_sheetD:
  assumes "wf_sheet h sp" and "shape h sp = (R, C)"
  shows "sp_cell_indices sp < length (indices h)" and "length (sheet sp) = R"
    and "\<And>r. r < R \<Longrightarrow> length (sheet sp ! r) = C"
    and "\<And>r c. r < R \<Longrightarrow> c < C \<Longrightarrow> sheet sp ! r ! c < length (cells h)"
  using assms by (auto simp: wf_sheet_def list_all_length)

lemma expand_using_cell_indices_char:
  assumes wf: "wf_sheet h sp" and sh: "shape h sp = (R, C)"
    and new: "shape_of (indices h ! ci) = (R', C')"
  shows "\<exists>h' sp'. expand_using_cell_indices h sp ci = Inr (h', sp') \<and>
     expand_inv (h\<lparr>indices := indices h @ [indices h ! ci]\<rparr>)
       (sp\<lparr>sp_cell_indices := length (indices h)\<rparr>) h' sp' R C C' R'"
proof -
  let ?h1 = "h\<lparr>indices := indices h @ [indices h ! ci]\<rparr>"
  let ?sp1 = "sp\<lparr>sp_cell_indices := length (indices h)\<rparr>"
  have sh1: "shape ?h1 ?sp1 = (R', C')"
    using new by (simp add: shape_def)
  have inv0: "expand_inv ?h1 ?sp1 ?h1 ?sp1 R C C' 0"
    using wf_sheetD [OF wf sh] by (simp add: expand_inv_def heap_step_refl)
  have run: "expand_using_cell_indices h sp ci = expand_rows_loop ?h1 ?sp1 (R, C) [0..<0 + R']"
    using sh sh1
    by (simp add: expand_using_cell_indices_def deepcopy_indices_def alloc_indices_def Let_def)
  show ?thesis
    unfolding run
    using expand_rows_loop_inv [OF inv0, of R'] sh1 by simp
qed

lemma initialise_row_ok:
  "\<exists>r h'. initialise_row h ci row_idx cols acc = Inr (r, h') \<and> indices h' = indices h"
proof (induction cols arbitrary: h acc)
  case Nil
  then show ?case by simp
next
  case (Cons c cols)
  show ?case
    using Cons.IH [of "snd (alloc_cell h \<lparr>row = Some (int row_idx), column = Some (int c),
        cell_value = None, cell_type = value_only, cell_indices = ci,
        constructing_words = Reference (int row_idx) (int c)\<rparr>)"]
    by (simp add: Cell_init_anchored alloc_cell_def)
qed

lemma initialise_rows_ok:
  "\<exists>array h'. initialise_rows h ci rows acc = Inr (array, h') \<and> indices h' = indices h"
proof (induction rows arbitrary: h acc)
  case Nil
  then show ?case by simp
next
  case (Cons r rows)
  obtain rw h1 where r1: "initialise_row h ci r [0..<snd (shape_of (indices h ! ci))] [] =
      Inr (rw, h1)" "indices h1 = indices h"
    using initialise_row_ok by blast
  show ?case
    using Cons.IH [of h1 "acc @ [rw]"] r1 by simp
qed

lemma Spreadsheet_init_ok:
  "\<exists>h' array. Spreadsheet_init h ci =
       Inr (h', \<lparr>sp_cell_indices = length (indices h), sheet = array\<rparr>) \<and>
     indices h' = indices h @ [indices h ! ci]"
proof -
  let ?h1 = "h\<lparr>indices := indices h @ [indices h ! ci]\<rparr>"
  obtain array h' where "initialise_array ?h1 (length (indices h)) = Inr (array, h')"
    "indices h' = indices ?h1"
    unfolding initialise_array_def using initialise_rows_ok by blast
  then show ?thesis
    by (simp add: Spreadsheet_init_def deepcopy_indices_def alloc_indices_def)
qed

text \<open>
  Claim C10. Let \<open>ci\<close> be an existing \<open>CellIndices\<close> object. The constructor returns a
  sheet whose indices are a new object, different from \<open>ci\<close>, with the content \<open>ci\<close>
  had; whatever is written to \<open>ci\<close> afterwards, the object the sheet points at still has
  that content and the shape of the sheet is the same. On a well-formed sheet
  \<open>expand_using_cell_indices\<close> returns, and the same holds of the sheet it leaves.
\<close>

theorem cell_indices_deep_copied:
  assumes "ci < length (indices h)"
  shows "(\<exists>h' sp. Spreadsheet_init h ci = Inr (h', sp) \<and> sp_cell_indices sp \<noteq> ci \<and>
       indices h' ! sp_cell_indices sp = indices h ! ci \<and>
       (\<forall>x. indices (h'\<lparr>indices := (indices h')[ci := x]\<rparr>) ! sp_cell_indices sp =
              indices h ! ci \<and>
            shape (h'\<lparr>indices := (indices h')[ci := x]\<rparr>) sp = shape_of (indices h ! ci))) \<and>
     (wf_sheet h sp0 \<longrightarrow>
       (\<exists>h' sp. expand_using_cell_indices h sp0 ci = Inr (h', sp) \<and> sp_cell_indices sp \<noteq> ci \<and>
          indices h' ! sp_cell_indices sp = indices h ! ci \<and>
          (\<forall>x. indices (h'\<lparr>indices := (indices h')[ci := x]\<rparr>) ! sp_cell_indices sp =
                 indices h ! ci \<and>
               shape (h'\<lparr>indices := (indices h')[ci := x]\<rparr>) sp = shape_of (indices h ! ci))))"
proof -
  have frame: "sp_cell_indices sp \<noteq> ci \<and>
       indices h' ! sp_cell_indices sp = indices h ! ci \<and>
       (\<forall>x. indices (h'\<lparr>indices := (indices h')[ci := x]\<rparr>) ! sp_cell_indices sp =
              indices h ! ci \<and>
            shape (h'\<lparr>indices := (indices h')[ci := x]\<rparr>) sp = shape_of (indices h ! ci))"
    if "sp_cell_indices sp = length (indices h)" "indices h' = indices h @ [indices h ! ci]"
    for h' sp
    using that assms by (simp add: shape_def)
  have init: "\<exists>h' sp. Spreadsheet_init h ci = Inr (h', sp) \<and>
      sp_cell_indices sp = length (indices h) \<and> indices h' = indices h @ [indices h ! ci]"
    using Spreadsheet_init_ok [of h ci] by auto
  have ex: "\<exists>h' sp. expand_using_cell_indices h sp0 ci = Inr (h', sp) \<and>
      sp_cell_indices sp = length (indices h) \<and> indices h' = indices h @ [indices h ! ci]"
    if wf: "wf_sheet h sp0"
  proof -
    obtain R C where sh: "shape h sp0 = (R, C)" by (cases "shape h sp0") simp
    obtain R' C' where new: "shape_of (indices h ! ci) = (R', C')"
      by (cases "shape_of (indices h ! ci)") simp
    show ?thesis
      using expand_using_cell_indices_char [OF wf sh new]
      by (auto simp: expand_inv_def heap_step_def)
  qed
  show ?thesis using frame init ex by metis
qed


text \<open>
  Claim C9. On a well-formed sheet of shape \<open>(R, C)\<close>, \<open>expand\<close> by \<open>n\<close> rows and \<open>m\<close>
  columns returns; the shape is then \<open>(R + n, C + m)\<close> and the sheet is well formed;
  every slot of the old sheet holds the cell object it held, which keeps its number and
  differs from what it was in its indices pointer only; every new slot holds a newly
  allocated empty cell; and every cell of the sheet points at the indices of the sheet.
\<close>

theorem expand_grows_and_refreshes:
  assumes wf: "wf_sheet h sp" and sh: "shape h sp = (R, C)"
  shows "\<exists>h' sp'. expand h sp n m rl cl rh ch = Inr (h', sp') \<and>
     shape h' sp' = (R + n, C + m) \<and> wf_sheet h' sp' \<and>
     (\<forall>r<R. \<forall>c<C. sheet sp' ! r ! c = sheet sp ! r ! c \<and>
        cell_value (cells h' ! (sheet sp ! r ! c)) = cell_value (cells h ! (sheet sp ! r ! c)) \<and>
        cells h' ! (sheet sp ! r ! c) =
          (cells h ! (sheet sp ! r ! c))\<lparr>cell_indices := sp_cell_indices sp'\<rparr>) \<and>
     (\<forall>r<R + n. \<forall>c<C + m. R \<le> r \<or> C \<le> c \<longrightarrow>
        length (cells h) \<le> sheet sp' ! r ! c \<and>
        cells h' ! (sheet sp' ! r ! c) = fresh_cell (sp_cell_indices sp')) \<and>
     (\<forall>r<R + n. \<forall>c<C + m.
        cell_indices (cells h' ! (sheet sp' ! r ! c)) = sp_cell_indices sp')"
proof -
  let ?old = "indices h ! sp_cell_indices sp"
  let ?new = "?old\<lparr>number_of_rows := number_of_rows ?old + n,
                number_of_columns := number_of_columns ?old + m,
                rows_labels := rows_labels ?old @ rl,
                columns_labels := columns_labels ?old @ cl,
                rows_help_text := rows_help_text ?old @ rh,
                columns_help_text := columns_help_text ?old @ ch\<rparr>"
  let ?ha = "h\<lparr>indices := indices h @ [?new]\<rparr>"
  let ?ci = "length (indices h)"
  let ?i = "Suc (length (indices h))"
  let ?h1 = "?ha\<lparr>indices := indices ?ha @ [indices ?ha ! ?ci]\<rparr>"
  let ?sp1 = "sp\<lparr>sp_cell_indices := length (indices ?ha)\<rparr>"
  have valid: "sp_cell_indices sp < length (indices h)"
    using wf by (simp add: wf_sheet_def)
  have RC: "number_of_rows ?old = R" "number_of_columns ?old = C"
    using sh by (simp_all add: shape_def shape_of_def)
  have sha: "shape ?ha sp = (R, C)"
    using sh valid by (simp add: shape_def nth_append)
  have wfa: "wf_sheet ?ha sp"
    using wf valid by (simp add: wf_sheet_def shape_def nth_append)
  have newa: "shape_of (indices ?ha ! ?ci) = (R + n, C + m)"
    using RC by (simp add: shape_of_def)
  have run: "expand h sp n m rl cl rh ch = expand_using_cell_indices ?ha sp ?ci"
    by (simp add: expand_def expand_size_def alloc_indices_def Let_def)
  obtain h' sp' where res: "expand_using_cell_indices ?ha sp ?ci = Inr (h', sp')"
    and inv: "expand_inv ?h1 ?sp1 h' sp' R C (C + m) (R + n)"
    using expand_using_cell_indices_char [OF wfa sha newa] by blast
  have spi: "sp_cell_indices sp' = ?i" and st: "heap_step ?i ?h1 h'"
    and len: "length (sheet sp') = R + n"
    and rows: "\<forall>r<R + n. length (sheet sp' ! r) = C + m"
    and old: "\<forall>r<R. \<forall>c<C. sheet sp' ! r ! c = sheet sp ! r ! c"
    and refs: "\<forall>r<R + n. \<forall>c<C + m. sheet sp' ! r ! c < length (cells h') \<and>
         (R \<le> r \<or> C \<le> c \<longrightarrow> length (cells h) \<le> sheet sp' ! r ! c)"
    and pointed: "\<forall>r<R + n. \<forall>c<C + m. cell_indices (cells h' ! (sheet sp' ! r ! c)) = ?i"
    using inv by (simp_all add: expand_inv_def max_def)
  have ind: "indices h' = indices h @ [?new, ?new]"
    using st by (simp add: heap_step_def)
  have shape': "shape h' sp' = (R + n, C + m)"
    using RC by (simp add: shape_def ind spi shape_of_def nth_append)
  have wf': "wf_sheet h' sp'"
    using len rows refs by (simp add: wf_sheet_def shape' list_all_length ind spi)
  have olds: "sheet sp' ! r ! c = sheet sp ! r ! c \<and>
        cell_value (cells h' ! (sheet sp ! r ! c)) = cell_value (cells h ! (sheet sp ! r ! c)) \<and>
        cells h' ! (sheet sp ! r ! c) = (cells h ! (sheet sp ! r ! c))\<lparr>cell_indices := ?i\<rparr>"
    if r: "r < R" and c: "c < C" for r c
  proof -
    let ?a = "sheet sp ! r ! c"
    have same: "sheet sp' ! r ! c = ?a" using old r c by simp
    have a: "?a < length (cells h)" using wf_sheetD(4) [OF wf sh r c] .
    have "cells h' ! ?a = cells h ! ?a \<or> cells h' ! ?a = (cells h ! ?a)\<lparr>cell_indices := ?i\<rparr>"
      using st a by (simp add: heap_step_def)
    moreover have "cell_indices (cells h' ! ?a) = ?i"
      using pointed r c same by (metis trans_less_add1)
    ultimately have "cells h' ! ?a = (cells h ! ?a)\<lparr>cell_indices := ?i\<rparr>"
      by (metis cell.surjective cell.update_convs(5))
    then show ?thesis using same by simp
  qed
  have news: "length (cells h) \<le> sheet sp' ! r ! c \<and>
        cells h' ! (sheet sp' ! r ! c) = fresh_cell ?i"
    if "r < R + n" "c < C + m" "R \<le> r \<or> C \<le> c" for r c
  proof -
    have "sheet sp' ! r ! c < length (cells h')" "length (cells h) \<le> sheet sp' ! r ! c"
      using refs that by blast+
    then show ?thesis using st by (simp add: heap_step_def)
  qed
  show ?thesis
    unfolding run res using shape' wf' olds news pointed spi by auto
qed


lemma wf_demo_filled: "wf_sheet demo_cells demo_filled_sheet"
  by (simp add: wf_sheet_def demo_cells_def demo_filled_sheet_def shape_def shape_of_def
      demo_indices_def)

lemma shape_demo_filled: "shape demo_cells demo_filled_sheet = (1, 2)"
  by (simp add: demo_cells_def demo_filled_sheet_def shape_def shape_of_def demo_indices_def)

theorem expand_grows_and_refreshes_witness:
  "\<exists>h' sp'. expand demo_cells demo_filled_sheet 1 1 [''r1''] [''c2''] [''h1''] [''k2''] =
       Inr (h', sp') \<and>
     shape h' sp' = (2, 3) \<and> wf_sheet h' sp' \<and>
     sheet sp' ! 0 ! 1 = 1 \<and> cell_value (cells h' ! 1) = Some 5 \<and>
     cells h' ! (sheet sp' ! 1 ! 2) = fresh_cell (sp_cell_indices sp') \<and>
     cell_indices (cells h' ! (sheet sp' ! 0 ! 0)) = sp_cell_indices sp' \<and>
     cell_indices (cells h' ! (sheet sp' ! 1 ! 0)) = sp_cell_indices sp'"
proof -
  obtain h' sp' where
    r: "expand demo_cells demo_filled_sheet 1 1 [''r1''] [''c2''] [''h1''] [''k2''] =
        Inr (h', sp')"
    and s: "shape h' sp' = (1 + 1, 2 + 1)" and w: "wf_sheet h' sp'"
    and old: "\<forall>r<1. \<forall>c<2. sheet sp' ! r ! c = sheet demo_filled_sheet ! r ! c \<and>
        cell_value (cells h' ! (sheet demo_filled_sheet ! r ! c)) =
          cell_value (cells demo_cells ! (sheet demo_filled_sheet ! r ! c)) \<and>
        cells h' ! (sheet demo_filled_sheet ! r ! c) =
          (cells demo_cells ! (sheet demo_filled_sheet ! r ! c))\<lparr>cell_indices := sp_cell_indices sp'\<rparr>"
    and new: "\<forall>r<1 + 1. \<forall>c<2 + 1. 1 \<le> r \<or> 2 \<le> c \<longrightarrow>
        length (cells demo_cells) \<le> sheet sp' ! r ! c \<and>
        cells h' ! (sheet sp' ! r ! c) = fresh_cell (sp_cell_indices sp')"
    and all: "\<forall>r<1 + 1. \<forall>c<2 + 1.
        cell_indices (cells h' ! (sheet sp' ! r ! c)) = sp_cell_indices sp'"
    using expand_grows_and_refreshes [OF wf_demo_filled shape_demo_filled,
        of 1 1 "[''r1'']" "[''c2'']" "[''h1'']" "[''k2'']"]
    by blast
  have o: "sheet sp' ! 0 ! 1 = 1 \<and> cell_value (cells h' ! 1) = Some 5"
    using old [rule_format, of 0 1] by (simp add: demo_filled_sheet_def demo_cells_def)
  have n: "cells h' ! (sheet sp' ! 1 ! 2) = fresh_cell (sp_cell_indices sp')"
    using new [rule_format, of 1 2] by simp
  have a: "cell_indices (cells h' ! (sheet sp' ! 0 ! 0)) = sp_cell_indices sp'"
    "cell_indices (cells h' ! (sheet sp' ! 1 ! 0)) = sp_cell_indices sp'"
    using all [rule_format, of 0 0] all [rule_format, of 1 0] by simp_all
  show ?thesis using r s w o n a by auto
qed

theorem cell_indices_deep_copied_witness:
  "(\<exists>h' sp. Spreadsheet_init demo_cells 0 = Inr (h', sp) \<and> sp_cell_indices sp \<noteq> 0 \<and>
      indices h' ! sp_cell_indices sp = demo_indices \<and>
      shape (h'\<lparr>indices := (indices h')[0 := demo_indices\<lparr>number_of_rows := 9\<rparr>]\<rparr>) sp = (1, 2)) \<and>
   (\<exists>h' sp. expand_using_cell_indices demo_cells demo_filled_sheet 0 = Inr (h', sp) \<and>
      sp_cell_indices sp \<noteq> 0 \<and> indices h' ! sp_cell_indices sp = demo_indices \<and>
      shape (h'\<lparr>indices := (indices h')[0 := demo_indices\<lparr>number_of_rows := 9\<rparr>]\<rparr>) sp = (1, 2))"
proof -
  have v: "0 < length (indices demo_cells)" by (simp add: demo_cells_def)
  have i: "indices demo_cells ! 0 = demo_indices" by (simp add: demo_cells_def)
  have s: "shape_of demo_indices = (1, 2)" by (simp add: shape_of_def demo_indices_def)
  show ?thesis
    using cell_indices_deep_copied [OF v, of demo_filled_sheet] wf_demo_filled
    unfolding i s by blast
qed

end
